theory Spec2Isabelle
  imports Main "HOL-Library.Char_ord" "HOL-Library.List_Lexorder"
begin

section \<open>Python strings\<close>

text \<open>
  Python \<open>str\<close> values are modelled as \<open>string\<close> (a list of 8-bit characters), so
  the model covers ASCII text. The helpers below follow the methods of \<open>str\<close> that the
  scripts call.
\<close>

definition whitespace_chars :: "char list" where
  "whitespace_chars =
     [CHR 0x09, CHR 0x0A, CHR 0x0B, CHR 0x0C, CHR 0x0D,
      CHR 0x1C, CHR 0x1D, CHR 0x1E, CHR 0x1F, CHR 0x20]"

definition is_space :: "char \<Rightarrow> bool" where
  "is_space c = (c \<in> set whitespace_chars)"

definition is_digit :: "char \<Rightarrow> bool" where
  "is_digit c = (c \<in> set ''0123456789'')"

text \<open>\<open>s.lstrip()\<close>, \<open>s.rstrip()\<close>, \<open>s.strip()\<close>.\<close>

definition lstrip :: "string \<Rightarrow> string" where
  "lstrip s = dropWhile is_space s"

definition rstrip :: "string \<Rightarrow> string" where
  "rstrip s = rev (dropWhile is_space (rev s))"

definition strip :: "string \<Rightarrow> string" where
  "strip s = lstrip (rstrip s)"

text \<open>\<open>s.rstrip(c)\<close> for a one-character argument.\<close>

definition rstrip_char :: "char \<Rightarrow> string \<Rightarrow> string" where
  "rstrip_char c s = rev (dropWhile (\<lambda>x. x = c) (rev s))"

text \<open>\<open>s.startswith(p)\<close>.\<close>

definition startswith :: "string \<Rightarrow> string \<Rightarrow> bool" where
  "startswith p s = (take (length p) s = p)"

text \<open>\<open>s.isdigit()\<close>: non-empty and all characters are digits.\<close>

definition isdigit :: "string \<Rightarrow> bool" where
  "isdigit s = (s \<noteq> [] \<and> list_all is_digit s)"

text \<open>
  \<open>re.match(r'^\d+$', s)\<close>: one or more digits; \<open>$\<close> also matches just before a
  final newline.
\<close>

definition re_match_digits :: "string \<Rightarrow> bool" where
  "re_match_digits s =
     (isdigit s \<or> (s \<noteq> [] \<and> last s = CHR 0x0A \<and> isdigit (butlast s)))"

text \<open>
  \<open>line.split(' ', 1)\<close>: \<open>None\<close> stands for a result of length one (no space in the
  line), \<open>Some (a, b)\<close> for the two parts around the first space.
\<close>

definition split_first_space :: "string \<Rightarrow> (string \<times> string) option" where
  "split_first_space s =
     (case dropWhile (\<lambda>c. c \<noteq> CHR '' '') s of
        [] \<Rightarrow> None
      | _ # rest \<Rightarrow> Some (takeWhile (\<lambda>c. c \<noteq> CHR '' '') s, rest))"

text \<open>\<open>s.split(c)\<close> for a one-character separator; the result is never empty.\<close>

fun split_char_acc :: "char \<Rightarrow> string \<Rightarrow> string \<Rightarrow> string list" where
  "split_char_acc c cur [] = [cur]"
| "split_char_acc c cur (x # xs) =
     (if x = c then cur # split_char_acc c [] xs else split_char_acc c (cur @ [x]) xs)"

definition split_char :: "char \<Rightarrow> string \<Rightarrow> string list" where
  "split_char c s = split_char_acc c [] s"

text \<open>\<open>s.split()\<close>: the maximal runs of non-whitespace characters.\<close>

fun split_ws_acc :: "string \<Rightarrow> string \<Rightarrow> string list" where
  "split_ws_acc cur [] = (if cur = [] then [] else [cur])"
| "split_ws_acc cur (x # xs) =
     (if is_space x
      then (if cur = [] then split_ws_acc [] xs else cur # split_ws_acc [] xs)
      else split_ws_acc (cur @ [x]) xs)"

definition split_ws :: "string \<Rightarrow> string list" where
  "split_ws s = split_ws_acc [] s"

text \<open>
  \<open>f.readlines()\<close> on the text of a file, after Python's translation of line ends to
  the newline character: the lines, each with its final newline (the last line may lack
  one).
\<close>

fun readlines_acc :: "string \<Rightarrow> string \<Rightarrow> string list" where
  "readlines_acc cur [] = (if cur = [] then [] else [cur])"
| "readlines_acc cur (x # xs) =
     (if x = CHR 0x0A then (cur @ [x]) # readlines_acc [] xs
      else readlines_acc (cur @ [x]) xs)"

definition readlines :: "string \<Rightarrow> string list" where
  "readlines s = readlines_acc [] s"

section \<open>Python dictionaries\<close>

text \<open>
  A \<open>dict\<close> keeps insertion order, and the scripts iterate over it, so it is an
  association list with distinct keys. Assigning to an existing key keeps its position.
\<close>

datatype py_error = KeyError | IndexError

fun dict_set :: "'k \<Rightarrow> 'v \<Rightarrow> ('k \<times> 'v) list \<Rightarrow> ('k \<times> 'v) list" where
  "dict_set k v [] = [(k, v)]"
| "dict_set k v ((k', v') # d) =
     (if k' = k then (k, v) # d else (k', v') # dict_set k v d)"

text \<open>\<open>d[k]\<close> read and then mutated in place by \<open>f\<close>; a missing key raises.\<close>

fun dict_apply ::
  "'k \<Rightarrow> ('v \<Rightarrow> py_error + 'v) \<Rightarrow> ('k \<times> 'v) list \<Rightarrow> py_error + ('k \<times> 'v) list" where
  "dict_apply k f [] = Inl KeyError"
| "dict_apply k f ((k', v) # d) =
     (if k' = k
      then (case f v of Inl e \<Rightarrow> Inl e | Inr v' \<Rightarrow> Inr ((k', v') # d))
      else (case dict_apply k f d of Inl e \<Rightarrow> Inl e | Inr d' \<Rightarrow> Inr ((k', v) # d')))"

section \<open>The outline tree (a05_CREATE_POWERPOINT.py)\<close>

record subtopic_data =
  subtopic_title :: string
  points :: "string list"

record topic_data =
  topic_title :: string
  subtopics :: "(string \<times> subtopic_data) list"

record module_data =
  module_title :: string
  topics :: "(string \<times> topic_data) list"

type_synonym outline = "(string \<times> module_data) list"

text \<open>The locals of \<open>parse_outline\<close>: the tree and the three cursors.\<close>

record parse_state =
  outline_of :: outline
  current_module :: "string option"
  current_topic :: "string option"
  current_subtopic :: "string option"

definition init_state :: parse_state where
  "init_state =
     \<lparr>outline_of = [], current_module = None, current_topic = None,
      current_subtopic = None\<rparr>"

definition default_course_title :: string where
  "default_course_title = ''Course Presentation''"

definition new_module :: "string \<Rightarrow> module_data" where
  "new_module t = \<lparr>module_title = t, topics = []\<rparr>"

definition new_topic :: "string \<Rightarrow> topic_data" where
  "new_topic t = \<lparr>topic_title = t, subtopics = []\<rparr>"

definition new_subtopic :: "string \<Rightarrow> subtopic_data" where
  "new_subtopic t = \<lparr>subtopic_title = t, points = []\<rparr>"

text \<open>\<open>outline[m]["topics"][t] = v\<close>.\<close>

definition set_topic :: "string \<Rightarrow> string \<Rightarrow> topic_data \<Rightarrow> outline \<Rightarrow> py_error + outline" where
  "set_topic m t v out =
     dict_apply m (\<lambda>md. Inr (md\<lparr>topics := dict_set t v (topics md)\<rparr>)) out"

text \<open>\<open>outline[m]["topics"][t]["subtopics"][s] = v\<close>.\<close>

definition set_subtopic ::
  "string \<Rightarrow> string \<Rightarrow> string \<Rightarrow> subtopic_data \<Rightarrow> outline \<Rightarrow> py_error + outline" where
  "set_subtopic m t s v out =
     dict_apply m
       (\<lambda>md. case dict_apply t
                 (\<lambda>td. Inr (td\<lparr>subtopics := dict_set s v (subtopics td)\<rparr>)) (topics md) of
               Inl e \<Rightarrow> Inl e
             | Inr ts \<Rightarrow> Inr (md\<lparr>topics := ts\<rparr>)) out"

text \<open>\<open>outline[m]["topics"][t]["subtopics"][s]["points"].append(p)\<close>.\<close>

definition append_point ::
  "string \<Rightarrow> string \<Rightarrow> string \<Rightarrow> string \<Rightarrow> outline \<Rightarrow> py_error + outline" where
  "append_point m t s p out =
     dict_apply m
       (\<lambda>md. case dict_apply t
                 (\<lambda>td. case dict_apply s
                           (\<lambda>sd. Inr (sd\<lparr>points := points sd @ [p]\<rparr>)) (subtopics td) of
                         Inl e \<Rightarrow> Inl e
                       | Inr ss \<Rightarrow> Inr (td\<lparr>subtopics := ss\<rparr>)) (topics md) of
               Inl e \<Rightarrow> Inl e
             | Inr ts \<Rightarrow> Inr (md\<lparr>topics := ts\<rparr>)) out"

text \<open>The branch of a module line: \<open>num_dots == 0 and number_part.isdigit()\<close>.\<close>

definition module_line :: "parse_state \<Rightarrow> string \<Rightarrow> string \<Rightarrow> parse_state" where
  "module_line st number_part title_part =
     (let cm = ''Module '' @ number_part in
      \<lparr>outline_of = dict_set cm (new_module (strip title_part)) (outline_of st),
       current_module = Some cm, current_topic = None, current_subtopic = None\<rparr>)"

text \<open>
  The default module made when a topic or subtopic line arrives before any module line
  (\<open>if not current_module\<close>): the tree and the module cursor after that step.
\<close>

definition ensure_module :: "parse_state \<Rightarrow> outline \<times> string" where
  "ensure_module st =
     (case current_module st of
        None \<Rightarrow> (dict_set ''Module 1'' (new_module ''Main Module'') (outline_of st), ''Module 1'')
      | Some m \<Rightarrow> (outline_of st, m))"

text \<open>The branch \<open>num_dots == 1\<close>.\<close>

definition topic_line :: "parse_state \<Rightarrow> string \<Rightarrow> string \<Rightarrow> py_error + parse_state" where
  "topic_line st number_part title_part =
     (let (out, cm) = ensure_module st;
          ct = ''Topic '' @ number_part
      in case set_topic cm ct (new_topic (strip title_part)) out of
           Inl e \<Rightarrow> Inl e
         | Inr out' \<Rightarrow>
             Inr \<lparr>outline_of = out', current_module = Some cm, current_topic = Some ct,
                  current_subtopic = None\<rparr>)"

text \<open>The branch \<open>num_dots == 2\<close>.\<close>

definition subtopic_line :: "parse_state \<Rightarrow> string \<Rightarrow> string \<Rightarrow> py_error + parse_state" where
  "subtopic_line st number_part title_part =
     (let (out, cm) = ensure_module st in
      case (case current_topic st of
              None \<Rightarrow>
                (let ct = ''Topic '' @ hd (split_char (CHR ''.'') number_part) @ ''.1'' in
                 case set_topic cm ct (new_topic ''Main Topic'') out of
                   Inl e \<Rightarrow> Inl e
                 | Inr out1 \<Rightarrow> Inr (out1, ct))
            | Some t \<Rightarrow> Inr (out, t)) of
        Inl e \<Rightarrow> Inl e
      | Inr (out1, ct) \<Rightarrow>
          (let cs = ''Subtopic '' @ number_part in
           case set_subtopic cm ct cs (new_subtopic (strip title_part)) out1 of
             Inl e \<Rightarrow> Inl e
           | Inr out2 \<Rightarrow>
               Inr \<lparr>outline_of = out2, current_module = Some cm, current_topic = Some ct,
                    current_subtopic = Some cs\<rparr>))"

text \<open>The branch \<open>num_dots == 3\<close>.\<close>

definition point_line :: "parse_state \<Rightarrow> string \<Rightarrow> py_error + parse_state" where
  "point_line st title_part =
     (case (current_module st, current_topic st, current_subtopic st) of
        (Some m, Some t, Some s) \<Rightarrow>
          (case append_point m t s (strip title_part) (outline_of st) of
             Inl e \<Rightarrow> Inl e
           | Inr out' \<Rightarrow> Inr (st\<lparr>outline_of := out'\<rparr>))
      | _ \<Rightarrow> Inr st)"

text \<open>
  The head of the loop body: the stripped line is skipped when empty or when it has no
  space; otherwise it yields \<open>num_dots\<close> (counted on the leading token as it stands),
  \<open>number_part\<close> (the token with trailing dots removed) and \<open>title_part\<close>.
\<close>

definition split_line :: "string \<Rightarrow> (nat \<times> string \<times> string) option" where
  "split_line raw =
     (let line = strip raw in
      if line = [] then None
      else case split_first_space line of
        None \<Rightarrow> None
      | Some (token, title_part) \<Rightarrow>
          Some (count_list token (CHR ''.''), rstrip_char (CHR ''.'') token, title_part))"

text \<open>One iteration of the loop over the lines.\<close>

definition process_line :: "parse_state \<Rightarrow> string \<Rightarrow> py_error + parse_state" where
  "process_line st raw =
     (case split_line raw of
        None \<Rightarrow> Inr st
      | Some (num_dots, number_part, title_part) \<Rightarrow>
          (if num_dots = 0 \<and> isdigit number_part then Inr (module_line st number_part title_part)
           else if num_dots = 1 then topic_line st number_part title_part
           else if num_dots = 2 then subtopic_line st number_part title_part
           else if num_dots = 3 then point_line st title_part
           else if num_dots = 0 \<and> re_match_digits number_part
             then Inr (module_line st number_part title_part)
           else Inr st))"

fun process_lines :: "parse_state \<Rightarrow> string list \<Rightarrow> py_error + parse_state" where
  "process_lines st [] = Inr st"
| "process_lines st (l # ls) =
     (case process_line st l of Inl e \<Rightarrow> Inl e | Inr st' \<Rightarrow> process_lines st' ls)"

text \<open>
  \<open>parse_outline\<close> on the lines read from the file: the title rule for the first line,
  then the loop. The result is the pair \<open>(outline, course_title)\<close>.
\<close>

definition title_and_rest :: "string list \<Rightarrow> string \<times> string list" where
  "title_and_rest ls =
     (case ls of
        [] \<Rightarrow> (default_course_title, [])
      | l # rest \<Rightarrow>
          (if \<not> startswith ''1.'' (strip l) then (strip l, rest)
           else (default_course_title, l # rest)))"

definition parse_lines :: "string list \<Rightarrow> py_error + (outline \<times> string)" where
  "parse_lines ls =
     (let (course_title, rest) = title_and_rest ls in
      case process_lines init_state rest of
        Inl e \<Rightarrow> Inl e
      | Inr st \<Rightarrow> Inr (outline_of st, course_title))"

definition parse_outline :: "string \<Rightarrow> py_error + (outline \<times> string)" where
  "parse_outline text = parse_lines (readlines text)"

section \<open>Projection to slides (a05_CREATE_POWERPOINT.py)\<close>

text \<open>One dictionary of \<open>slides_data\<close>; a colour is its RGB triple.\<close>

record slide =
  title_of :: string
  content_of :: "string list"
  color_of :: "nat \<times> nat \<times> nat"
  type_of :: string

definition COLORS_module_title :: "nat \<times> nat \<times> nat" where
  "COLORS_module_title = (0, 32, 96)"

definition COLORS_topic_title :: "nat \<times> nat \<times> nat" where
  "COLORS_topic_title = (0, 112, 192)"

definition COLORS_subtopic_title :: "nat \<times> nat \<times> nat" where
  "COLORS_subtopic_title = (0, 176, 240)"

definition module_slide :: "string \<Rightarrow> module_data \<Rightarrow> slide" where
  "module_slide m md =
     \<lparr>title_of = m @ '': '' @ module_title md,
      content_of = map (\<lambda>(t, td). topic_title td) (topics md),
      color_of = COLORS_module_title, type_of = ''module''\<rparr>"

definition topic_slide :: "string \<Rightarrow> topic_data \<Rightarrow> slide" where
  "topic_slide topic_number td =
     \<lparr>title_of = topic_number @ '': '' @ topic_title td,
      content_of = map (\<lambda>(s, sd). subtopic_title sd) (subtopics td),
      color_of = COLORS_topic_title, type_of = ''topic''\<rparr>"

definition subtopic_slide :: "subtopic_data \<Rightarrow> slide" where
  "subtopic_slide sd =
     \<lparr>title_of = subtopic_title sd, content_of = points sd,
      color_of = COLORS_subtopic_title, type_of = ''subtopic''\<rparr>"

text \<open>\<open>len(slides_data) >= max_slides\<close>.\<close>

definition cap_reached :: "slide list \<Rightarrow> int \<Rightarrow> bool" where
  "cap_reached slides_data max_slides = (int (length slides_data) \<ge> max_slides)"

text \<open>
  The three nested loops of \<open>prepare_slides_data\<close>, innermost first. Each takes the
  list built so far and returns it extended; a \<open>break\<close> returns the list as it is.
\<close>

fun subtopics_loop :: "int \<Rightarrow> (string \<times> subtopic_data) list \<Rightarrow> slide list \<Rightarrow> slide list" where
  "subtopics_loop max_slides [] slides_data = slides_data"
| "subtopics_loop max_slides ((s, sd) # rest) slides_data =
     (if cap_reached slides_data max_slides then slides_data
      else (let slides_data' = slides_data @ [subtopic_slide sd] in
            if cap_reached slides_data' max_slides then slides_data'
            else subtopics_loop max_slides rest slides_data'))"

text \<open>\<open>topic.split()[1]\<close> raises \<open>IndexError\<close> when the key has fewer than two words.\<close>

definition topic_number_of :: "string \<Rightarrow> py_error + string" where
  "topic_number_of topic =
     (case split_ws topic of _ # n # _ \<Rightarrow> Inr n | _ \<Rightarrow> Inl IndexError)"

fun topics_loop ::
  "int \<Rightarrow> (string \<times> topic_data) list \<Rightarrow> slide list \<Rightarrow> py_error + slide list" where
  "topics_loop max_slides [] slides_data = Inr slides_data"
| "topics_loop max_slides ((t, td) # rest) slides_data =
     (if cap_reached slides_data max_slides then Inr slides_data
      else case topic_number_of t of
        Inl e \<Rightarrow> Inl e
      | Inr topic_number \<Rightarrow>
          (let slides_data' = slides_data @ [topic_slide topic_number td] in
           if cap_reached slides_data' max_slides then Inr slides_data'
           else topics_loop max_slides rest
                  (subtopics_loop max_slides (subtopics td) slides_data')))"

fun modules_loop ::
  "int \<Rightarrow> (string \<times> module_data) list \<Rightarrow> slide list \<Rightarrow> py_error + slide list" where
  "modules_loop max_slides [] slides_data = Inr slides_data"
| "modules_loop max_slides ((m, md) # rest) slides_data =
     (if topics md = [] then modules_loop max_slides rest slides_data
      else (let slides_data' = slides_data @ [module_slide m md] in
            if cap_reached slides_data' max_slides then Inr slides_data'
            else case topics_loop max_slides (topics md) slides_data' of
              Inl e \<Rightarrow> Inl e
            | Inr slides_data'' \<Rightarrow>
                (if cap_reached slides_data'' max_slides then Inr slides_data''
                 else modules_loop max_slides rest slides_data'')))"

definition prepare_slides_data :: "outline \<Rightarrow> int \<Rightarrow> py_error + slide list" where
  "prepare_slides_data outline_data max_slides = modules_loop max_slides outline_data []"

text \<open>
  The slides that \<open>prepare_slides_data\<close> is meant to produce when no cap interferes,
  written after the specification: in the order of the outline, a module with at least
  one topic gives its module slide, then for each topic the topic slide followed by one
  slide per subtopic; a module without topics gives nothing.
\<close>

definition topic_slides :: "string \<times> topic_data \<Rightarrow> slide list" where
  "topic_slides p =
     (case p of (t, td) \<Rightarrow>
        topic_slide (split_ws t ! 1) td # map (\<lambda>(s, sd). subtopic_slide sd) (subtopics td))"

definition module_slides :: "string \<times> module_data \<Rightarrow> slide list" where
  "module_slides p =
     (case p of (m, md) \<Rightarrow>
        if topics md = [] then [] else module_slide m md # concat (map topic_slides (topics md)))"

definition all_slides :: "outline \<Rightarrow> slide list" where
  "all_slides outline_data = concat (map module_slides outline_data)"

text \<open>Every topic key has at least two words, so that \<open>topic.split()[1]\<close> exists.\<close>

definition topic_keys_ok :: "(string \<times> topic_data) list \<Rightarrow> bool" where
  "topic_keys_ok ts = list_all (\<lambda>(t, td). 2 \<le> length (split_ws t)) ts"

definition outline_keys_ok :: "outline \<Rightarrow> bool" where
  "outline_keys_ok outline_data = list_all (\<lambda>(m, md). topic_keys_ok (topics md)) outline_data"

text \<open>
  Two outlines used as examples: the tree that the specification's scenario text is parsed
  to, and the tree of the text \<open>T\<close>, \<open>1 A\<close>, \<open>2 B\<close>, \<open>2.1 C\<close>, whose first module has no
  topic.
\<close>

definition scenario_outline :: outline where
  "scenario_outline =
     [(''Module 1'',
       \<lparr>module_title = ''Main Module'',
        topics =
          [(''Topic 1'', \<lparr>topic_title = ''Security'', subtopics = []\<rparr>),
           (''Topic 1.1'',
            \<lparr>topic_title = ''Basics'',
             subtopics =
               [(''Subtopic 1.1.1'',
                 \<lparr>subtopic_title = ''Intro'', points = [''Point A'', ''Point B'']\<rparr>)]\<rparr>)]\<rparr>)]"

definition two_module_outline :: outline where
  "two_module_outline =
     [(''Module 1'', \<lparr>module_title = ''A'', topics = []\<rparr>),
      (''Module 2'',
       \<lparr>module_title = ''B'',
        topics = [(''Topic 2.1'', \<lparr>topic_title = ''C'', subtopics = []\<rparr>)]\<rparr>)]"

section \<open>Image prompts (a06_Image_Generation.py)\<close>

text \<open>The entries of the module-level \<open>config\<close> that the prompt templates read.\<close>

definition config_prompt_style :: string where
  "config_prompt_style = ''professional business''"

definition config_focus :: string where
  "config_focus = ''people and technology concepts with an exciting and modern design''"

definition config_color_scheme :: string where
  "config_color_scheme = ''modern corporate looke''"

definition create_fallback_prompt :: "string \<Rightarrow> string" where
  "create_fallback_prompt slide_title =
     ''Create a professional image representing '' @ slide_title @ ''. '' @
     ''Style: '' @ config_prompt_style @ ''. '' @
     ''Focus on '' @ config_focus @ '' with '' @ config_color_scheme @ ''.''"

text \<open>
  \<open>get_enhanced_prompt\<close> reads the global \<open>prompt_cache\<close>, passed here as the first
  argument.
\<close>

definition get_enhanced_prompt :: "(string \<times> string) list \<Rightarrow> string \<Rightarrow> string \<Rightarrow> string" where
  "get_enhanced_prompt prompt_cache slide_title slide_content =
     (case map_of prompt_cache slide_title of
        Some prompt \<Rightarrow> prompt
      | None \<Rightarrow> create_fallback_prompt slide_title)"

section \<open>Cleaning the response of the text generator (a06_Image_Generation.py)\<close>

text \<open>
  \<open>s.find(p)\<close> and \<open>s.find(p, start)\<close>: the index of the first occurrence, \<open>-1\<close> when
  there is none. \<open>find_at p i s\<close> searches \<open>s\<close>, whose first character has index \<open>i\<close>.
\<close>

fun find_at :: "string \<Rightarrow> nat \<Rightarrow> string \<Rightarrow> int" where
  "find_at p i [] = (if p = [] then int i else - 1)"
| "find_at p i (c # cs) =
     (if startswith p (c # cs) then int i else find_at p (Suc i) cs)"

definition py_find :: "string \<Rightarrow> string \<Rightarrow> int" where
  "py_find p s = find_at p 0 s"

definition py_find_from :: "string \<Rightarrow> string \<Rightarrow> nat \<Rightarrow> int" where
  "py_find_from p s start =
     (if length s < start then - 1 else find_at p start (drop start s))"

text \<open>\<open>p in s\<close>.\<close>

definition contains :: "string \<Rightarrow> string \<Rightarrow> bool" where
  "contains p s = (0 \<le> py_find p s)"

text \<open>\<open>s[a:b]\<close> for \<open>0 \<le> a\<close> and \<open>0 \<le> b\<close>.\<close>

definition slice :: "string \<Rightarrow> nat \<Rightarrow> nat \<Rightarrow> string" where
  "slice s a b = take (b - a) (drop a s)"

definition fence_open :: string where
  "fence_open = [CHR 0x60, CHR 0x60, CHR 0x60, CHR ''j'', CHR ''s'', CHR ''o'', CHR ''n'']"

definition fence_close :: string where
  "fence_close = [CHR 0x60, CHR 0x60, CHR 0x60]"

text \<open>
  \<open>clean_json_response\<close>; \<open>generate_all_speaker_notes\<close>
  (a06-Student_Notes_Student_Handbook.py) carries the same statements inline.
\<close>

definition clean_json_response :: "string \<Rightarrow> string" where
  "clean_json_response response =
     (let response1 =
        (if contains fence_open response
         then (let json_start = py_find fence_open response + 7;
                   json_end = py_find_from fence_close response (nat json_start)
               in if json_end > json_start
                  then strip (slice response (nat json_start) (nat json_end))
                  else response)
         else response);
          response2 = strip response1
      in if \<not> startswith ''{'' response2
         then (let start_idx = py_find ''{'' response2
               in if 0 \<le> start_idx then drop (nat start_idx) response2 else response2)
         else response2)"

text \<open>
  The parse of a response: \<open>json.loads(clean_json_response(response))\<close>. The JSON
  decoder belongs to the Python library and is a parameter; \<open>None\<close> stands for
  \<open>JSONDecodeError\<close>.
\<close>

definition parse_response :: "(string \<Rightarrow> 'a option) \<Rightarrow> string \<Rightarrow> 'a option" where
  "parse_response json_loads response = json_loads (clean_json_response response)"

text \<open>A response that wraps \<open>j\<close> in a fenced block, each fence on a line of its own.\<close>

definition fenced :: "string \<Rightarrow> string" where
  "fenced j = fence_open @ [CHR 0x0A] @ j @ [CHR 0x0A] @ fence_close"

section \<open>Notes of the title slide (a05_CREATE_POWERPOINT.py)\<close>











section \<open>Notes of a single-slide presentation (a06-Student_Notes_Student_Handbook.py)\<close>




section \<open>File names of the per-slide artifacts\<close>

text \<open>\<open>str(n)\<close> for a natural number, and the format \<open>{n:0wd}\<close>.\<close>

definition digit_char :: "nat \<Rightarrow> char" where
  "digit_char d = ''0123456789'' ! d"

function str_of_nat :: "nat \<Rightarrow> string" where
  "str_of_nat n = (if n < 10 then [digit_char n] else str_of_nat (n div 10) @ [digit_char (n mod 10)])"
  by pat_completeness auto
termination
  by (relation "measure id") auto

declare str_of_nat.simps [simp del]

definition format_0d :: "nat \<Rightarrow> nat \<Rightarrow> string" where
  "format_0d w n = replicate (w - length (str_of_nat n)) (CHR ''0'') @ str_of_nat n"

text \<open>\<open>xs.index(x)\<close> for an element of the list: the position of its first occurrence.\<close>

fun list_index :: "'a \<Rightarrow> 'a list \<Rightarrow> nat" where
  "list_index x [] = 0"
| "list_index x (y # ys) = (if y = x then 0 else Suc (list_index x ys))"

text \<open>
  \<open>generate_slide_images_parallel\<close> (a05): the file name of each slide's image, in the
  order of \<open>slides_data\<close>.
\<close>

definition image_filename :: "nat \<Rightarrow> string" where
  "image_filename slide_num = format_0d 2 slide_num @ ''_slide.png''"

definition image_filenames :: "'a list \<Rightarrow> string list" where
  "image_filenames slides_data =
     map (\<lambda>slide. image_filename (list_index slide slides_data + 1)) slides_data"

text \<open>
  \<open>generate_snapshots_for_presentation\<close> (a07_Slide_Snapshot_Generator.py): the file
  name of the title slide's snapshot and of each slide's snapshot. A slide is the pair of
  its title and its content.
\<close>

definition is_alnum :: "char \<Rightarrow> bool" where
  "is_alnum c =
     (c \<in> set ''0123456789ABCDEFGHIJKLMNOPQRSTUVWXYZabcdefghijklmnopqrstuvwxyz'')"

definition safe_title :: "string \<Rightarrow> string" where
  "safe_title title = map (\<lambda>c. if is_alnum c then c else CHR ''_'') title"

definition title_snapshot_filename :: string where
  "title_snapshot_filename = ''00_snapshot_title_slide.png''"

definition snapshot_filename :: "nat \<Rightarrow> string \<Rightarrow> string" where
  "snapshot_filename slide_index title =
     format_0d 3 slide_index @ ''_snapshot_'' @ safe_title title @ ''.png''"

definition snapshot_filenames :: "(string \<times> string list) list \<Rightarrow> string list" where
  "snapshot_filenames slides_data =
     map (\<lambda>slide. snapshot_filename (list_index slide slides_data + 1) (fst slide)) slides_data"

section \<open>Invariant of the parser's cursors\<close>

text \<open>
  Every cursor that is set names a key that exists at its level of the tree, below the
  cursors above it.
\<close>

definition cursors_ok :: "parse_state \<Rightarrow> bool" where
  "cursors_ok st =
     (case current_module st of
        None \<Rightarrow> current_topic st = None \<and> current_subtopic st = None
      | Some m \<Rightarrow>
          (case map_of (outline_of st) m of
             None \<Rightarrow> False
           | Some md \<Rightarrow>
               (case current_topic st of
                  None \<Rightarrow> current_subtopic st = None
                | Some t \<Rightarrow>
                    (case map_of (topics md) t of
                       None \<Rightarrow> False
                     | Some td \<Rightarrow>
                         (case current_subtopic st of
                            None \<Rightarrow> True
                          | Some s \<Rightarrow> map_of (subtopics td) s \<noteq> None)))))"
section \<open>The parser never raises\<close>

lemma map_of_dict_set: "map_of (dict_set k v d) = (map_of d)(k \<mapsto> v)"
  by (induction d) (auto simp: fun_eq_iff)

lemma dict_apply_ok:
  "map_of d k = Some v \<Longrightarrow> f v = Inr v' \<Longrightarrow>
   \<exists>d'. dict_apply k f d = Inr d' \<and> map_of d' = (map_of d)(k \<mapsto> v')"
proof (induction d)
  case Nil then show ?case by simp
next
  case (Cons a d)
  obtain k0 v0 where a: "a = (k0, v0)" by (cases a)
  show ?case
  proof (cases "k0 = k")
    case True
    with Cons.prems a show ?thesis by (auto simp: fun_eq_iff)
  next
    case False
    with Cons.prems a have "map_of d k = Some v" by simp
    from Cons.IH[OF this Cons.prems(2)] obtain d' where
      "dict_apply k f d = Inr d'" "map_of d' = (map_of d)(k \<mapsto> v')" by blast
    with False a show ?thesis by (auto simp: fun_eq_iff)
  qed
qed

lemma set_topic_ok:
  assumes "map_of out m = Some md"
  shows "\<exists>out'. set_topic m t v out = Inr out' \<and>
           map_of out' = (map_of out)(m \<mapsto> md\<lparr>topics := dict_set t v (topics md)\<rparr>)"
  unfolding set_topic_def by (rule dict_apply_ok[OF assms]) simp

lemma set_subtopic_ok:
  assumes m: "map_of out m = Some md" and t: "map_of (topics md) t = Some td"
  shows "\<exists>out' ts'. set_subtopic m t s v out = Inr out' \<and>
           map_of out' = (map_of out)(m \<mapsto> md\<lparr>topics := ts'\<rparr>) \<and>
           map_of ts' = (map_of (topics md))(t \<mapsto> td\<lparr>subtopics := dict_set s v (subtopics td)\<rparr>)"
proof -
  from dict_apply_ok[OF t, of "\<lambda>td. Inr (td\<lparr>subtopics := dict_set s v (subtopics td)\<rparr>)"]
  obtain ts' where ts: "dict_apply t (\<lambda>td. Inr (td\<lparr>subtopics := dict_set s v (subtopics td)\<rparr>)) (topics md) = Inr ts'"
    "map_of ts' = (map_of (topics md))(t \<mapsto> td\<lparr>subtopics := dict_set s v (subtopics td)\<rparr>)"
    by auto
  have "\<exists>out'. set_subtopic m t s v out = Inr out' \<and> map_of out' = (map_of out)(m \<mapsto> md\<lparr>topics := ts'\<rparr>)"
    unfolding set_subtopic_def by (rule dict_apply_ok[OF m]) (simp add: ts(1))
  with ts(2) show ?thesis by blast
qed

lemma append_point_ok:
  assumes m: "map_of out m = Some md" and t: "map_of (topics md) t = Some td"
    and s: "map_of (subtopics td) s = Some sd"
  shows "\<exists>out' ts' ss'. append_point m t s p out = Inr out' \<and>
           map_of out' = (map_of out)(m \<mapsto> md\<lparr>topics := ts'\<rparr>) \<and>
           map_of ts' = (map_of (topics md))(t \<mapsto> td\<lparr>subtopics := ss'\<rparr>) \<and>
           map_of ss' = (map_of (subtopics td))(s \<mapsto> sd\<lparr>points := points sd @ [p]\<rparr>)"
proof -
  from dict_apply_ok[OF s, of "\<lambda>sd. Inr (sd\<lparr>points := points sd @ [p]\<rparr>)"]
  obtain ss' where ss: "dict_apply s (\<lambda>sd. Inr (sd\<lparr>points := points sd @ [p]\<rparr>)) (subtopics td) = Inr ss'"
    "map_of ss' = (map_of (subtopics td))(s \<mapsto> sd\<lparr>points := points sd @ [p]\<rparr>)"
    by auto
  let ?f = "\<lambda>td. case dict_apply s (\<lambda>sd. Inr (sd\<lparr>points := points sd @ [p]\<rparr>)) (subtopics td) of
                         Inl e \<Rightarrow> Inl e
                       | Inr ss \<Rightarrow> Inr (td\<lparr>subtopics := ss\<rparr>)"
  have "?f td = Inr (td\<lparr>subtopics := ss'\<rparr>)" by (simp add: ss(1))
  from dict_apply_ok[where f = ?f, OF t this]
  obtain ts' where ts: "dict_apply t ?f (topics md) = Inr ts'"
    "map_of ts' = (map_of (topics md))(t \<mapsto> td\<lparr>subtopics := ss'\<rparr>)"
    by auto
  have "\<exists>out'. append_point m t s p out = Inr out' \<and> map_of out' = (map_of out)(m \<mapsto> md\<lparr>topics := ts'\<rparr>)"
    unfolding append_point_def by (rule dict_apply_ok[OF m]) (simp add: ts(1))
  with ts(2) ss(2) show ?thesis by blast
qed

lemma module_line_ok: "cursors_ok (module_line st n t)"
  by (simp add: cursors_ok_def module_line_def Let_def map_of_dict_set)

lemma ensure_module_ok:
  assumes "cursors_ok st" "ensure_module st = (out, cm)"
  shows "\<exists>md. map_of out cm = Some md \<and>
          (\<forall>t. current_topic st = Some t \<longrightarrow> current_module st = Some cm \<and> out = outline_of st)"
  using assms
  by (auto simp: cursors_ok_def ensure_module_def map_of_dict_set split: option.splits)

lemma topic_line_ok:
  assumes "cursors_ok st"
  shows "\<exists>st'. topic_line st n t = Inr st' \<and> cursors_ok st'"
proof -
  obtain out cm where e: "ensure_module st = (out, cm)" by (cases "ensure_module st")
  from ensure_module_ok[OF assms e] obtain md where md: "map_of out cm = Some md" by blast
  define ct where "ct = ''Topic '' @ n"
  from set_topic_ok[OF md, of ct "new_topic (strip t)"]
  obtain out' where o: "set_topic cm ct (new_topic (strip t)) out = Inr out'"
    "map_of out' = (map_of out)(cm \<mapsto> md\<lparr>topics := dict_set ct (new_topic (strip t)) (topics md)\<rparr>)"
    by blast
  have "topic_line st n t = Inr \<lparr>outline_of = out', current_module = Some cm,
          current_topic = Some ct, current_subtopic = None\<rparr>"
    unfolding topic_line_def e Let_def ct_def[symmetric] by (simp add: o(1))
  then show ?thesis
    by (simp add: o(2) cursors_ok_def map_of_dict_set)
qed

lemma subtopic_line_ok:
  assumes "cursors_ok st"
  shows "\<exists>st'. subtopic_line st n t = Inr st' \<and> cursors_ok st'"
proof -
  obtain out cm where e: "ensure_module st = (out, cm)" by (cases "ensure_module st")
  from ensure_module_ok[OF assms e] obtain md where md: "map_of out cm = Some md"
    and ct: "\<And>t. current_topic st = Some t \<Longrightarrow> current_module st = Some cm \<and> out = outline_of st"
    by blast
  define cs where "cs = ''Subtopic '' @ n"
  define dt where "dt = ''Topic '' @ hd (split_char (CHR ''.'') n) @ ''.1''"
  define pick where "pick = (case current_topic st of
              None \<Rightarrow>
                (case set_topic cm dt (new_topic ''Main Topic'') out of
                   Inl e \<Rightarrow> Inl e
                 | Inr out1 \<Rightarrow> Inr (out1, dt))
            | Some t \<Rightarrow> Inr (out, t))"
  have "\<exists>out1 ct md1 td. pick = Inr (out1, ct) \<and> map_of out1 cm = Some md1 \<and>
          map_of (topics md1) ct = Some td"
  proof (cases "current_topic st")
    case None
    from set_topic_ok[OF md, of dt "new_topic ''Main Topic''"]
    obtain out1 where "set_topic cm dt (new_topic ''Main Topic'') out = Inr out1"
      "map_of out1 = (map_of out)(cm \<mapsto> md\<lparr>topics := dict_set dt (new_topic ''Main Topic'') (topics md)\<rparr>)"
      by blast
    with None show ?thesis by (simp add: pick_def map_of_dict_set)
  next
    case (Some t0)
    from ct[OF Some] assms Some md show ?thesis
      by (auto simp: pick_def cursors_ok_def split: option.splits)
  qed
  then obtain out1 ct md1 td where c: "pick = Inr (out1, ct)"
    and md1: "map_of out1 cm = Some md1" and td: "map_of (topics md1) ct = Some td" by blast
  from set_subtopic_ok[OF md1 td, of cs "new_subtopic (strip t)"]
  obtain out2 ts' where o: "set_subtopic cm ct cs (new_subtopic (strip t)) out1 = Inr out2"
     "map_of out2 = (map_of out1)(cm \<mapsto> md1\<lparr>topics := ts'\<rparr>)"
     "map_of ts' = (map_of (topics md1))(ct \<mapsto> td\<lparr>subtopics := dict_set cs (new_subtopic (strip t)) (subtopics td)\<rparr>)"
    by blast
  have "subtopic_line st n t = Inr \<lparr>outline_of = out2, current_module = Some cm,
          current_topic = Some ct, current_subtopic = Some cs\<rparr>"
    unfolding subtopic_line_def e Let_def cs_def[symmetric] dt_def[symmetric]
    using c o(1) by (simp add: pick_def)
  then show ?thesis
    by (simp add: o(2,3) cursors_ok_def map_of_dict_set)
qed

lemma point_line_ok:
  assumes "cursors_ok st"
  shows "\<exists>st'. point_line st t = Inr st' \<and> cursors_ok st'"
proof (cases "\<exists>m t s. current_module st = Some m \<and> current_topic st = Some t \<and> current_subtopic st = Some s")
  case True
  then obtain m tt s where c: "current_module st = Some m" "current_topic st = Some tt" "current_subtopic st = Some s" by blast
  with assms obtain md td sd where md: "map_of (outline_of st) m = Some md"
    and td: "map_of (topics md) tt = Some td" and sd: "map_of (subtopics td) s = Some sd"
    by (auto simp: cursors_ok_def split: option.splits)
  from append_point_ok[OF md td sd, of "strip t"] obtain out' ts' ss' where
    o: "append_point m tt s (strip t) (outline_of st) = Inr out'"
       "map_of out' = (map_of (outline_of st))(m \<mapsto> md\<lparr>topics := ts'\<rparr>)"
       "map_of ts' = (map_of (topics md))(tt \<mapsto> td\<lparr>subtopics := ss'\<rparr>)"
       "map_of ss' = (map_of (subtopics td))(s \<mapsto> sd\<lparr>points := points sd @ [strip t]\<rparr>)"
    by blast
  show ?thesis by (simp add: point_line_def c o cursors_ok_def)
next
  case False
  with assms show ?thesis
    by (auto simp: point_line_def split: option.splits)
qed

lemma process_line_ok:
  assumes "cursors_ok st"
  shows "\<exists>st'. process_line st l = Inr st' \<and> cursors_ok st'"
  using assms topic_line_ok[OF assms] subtopic_line_ok[OF assms] point_line_ok[OF assms]
  by (auto simp: process_line_def Let_def module_line_ok split: option.splits)

lemma process_lines_ok:
  "cursors_ok st \<Longrightarrow> \<exists>st'. process_lines st ls = Inr st' \<and> cursors_ok st'"
proof (induction ls arbitrary: st)
  case Nil then show ?case by simp
next
  case (Cons l ls)
  from process_line_ok[OF Cons.prems, of l] obtain st1 where
    s: "process_line st l = Inr st1" "cursors_ok st1" by blast
  from Cons.IH[OF s(2)] s(1) show ?case by simp
qed

lemma init_state_ok: "cursors_ok init_state"
  by (simp add: cursors_ok_def init_state_def)

lemma parse_lines_total: "\<exists>out t. parse_lines ls = Inr (out, t)"
proof -
  obtain ct rest where tr: "title_and_rest ls = (ct, rest)" by (cases "title_and_rest ls")
  from process_lines_ok[OF init_state_ok, of rest] obtain st' where
    "process_lines init_state rest = Inr st'" by blast
  with tr show ?thesis by (simp add: parse_lines_def)
qed


lemma process_lines_total: "\<exists>st. process_lines init_state ls = Inr st"
  using process_lines_ok[OF init_state_ok] by blast

section \<open>Totality of the parser\<close>

text \<open>
  Claim C8, as the code has it: \<open>parse_outline\<close> never raises. For every text of the
  outline file, the empty text and a text holding only a title line included, it returns
  a (possibly empty) tree together with a course title; no input makes it fail.
\<close>

theorem parse_outline_never_raises: "\<exists>out t. parse_outline text = Inr (out, t)"
  unfolding parse_outline_def by (rule parse_lines_total)

theorem parse_outline_never_raises_witness:
  "\<exists>out t. parse_outline ''AI 101\<newline>1 Security\<newline>not an outline line'' = Inr (out, t)"
  using parse_outline_never_raises [of "''AI 101\<newline>1 Security\<newline>not an outline line''"] .

text \<open>
  Claim C8 as stated fails: an input that is empty after its title line, and the empty
  input itself, are parsed to the empty tree; no error is raised.
\<close>

theorem parse_outline_title_only_returns:
  "parse_outline ''AI 101'' = Inr ([], ''AI 101'') \<and>
   parse_outline [] = Inr ([], ''Course Presentation'')"
  by code_simp

section \<open>The course title\<close>

text \<open>
  Claim C5, as the code has it: the first line of the file, stripped (whether blank or
  not), becomes the course title and is removed, unless it starts with \<open>1.\<close>; in that
  case the course title is \<open>Course Presentation\<close> and the line is parsed as outline
  content. A \<open>1\<close> followed by a space is no exception.
\<close>

theorem course_title_first_line:
  "\<exists>st. if startswith ''1.'' (strip l)
        then process_lines init_state (l # ls) = Inr st \<and>
             parse_lines (l # ls) = Inr (outline_of st, ''Course Presentation'')
        else process_lines init_state ls = Inr st \<and>
             parse_lines (l # ls) = Inr (outline_of st, strip l)"
proof (cases "startswith ''1.'' (strip l)")
  case True
  obtain st where "process_lines init_state (l # ls) = Inr st"
    using process_lines_total by blast
  with True show ?thesis
    by (auto simp: parse_lines_def title_and_rest_def default_course_title_def)
next
  case False
  obtain st where "process_lines init_state ls = Inr st"
    using process_lines_total by blast
  with False show ?thesis
    by (auto simp: parse_lines_def title_and_rest_def)
qed

theorem course_title_first_line_witness:
  "\<exists>st. process_lines init_state [''1.1 A''] = Inr st \<and>
        parse_lines [''1 Intro'', ''1.1 A''] = Inr (outline_of st, ''1 Intro'')"
proof -
  have a: "\<not> startswith ''1.'' (strip ''1 Intro'')" by code_simp
  have b: "strip ''1 Intro'' = ''1 Intro''" by code_simp
  from course_title_first_line[of "''1 Intro''" "[''1.1 A'']"] a b
  show ?thesis by simp
qed

text \<open>
  Claim C5 as stated fails: a first line with the prefix \<open>1\<close> and a space becomes the
  course title and is not parsed as a module line.
\<close>

theorem first_line_one_space_is_title:
  "parse_outline ''1 Intro\<newline>1.1 A'' =
     Inr ([(''Module 1'', \<lparr>module_title = ''Main Module'',
             topics = [(''Topic 1.1'', \<lparr>topic_title = ''A'', subtopics = []\<rparr>)]\<rparr>)],
          ''1 Intro'')"
  by code_simp

section \<open>Placeholder parents\<close>








section \<open>The scenario of the specification\<close>

text \<open>
  Claim C1 on the code: the dots of the leading token are counted before its trailing dot
  is removed, so the line \<open>1. Security\<close> has one dot and is taken as a topic. The
  outline of the scenario parses to the default module \<open>Main Module\<close> with the two topics
  \<open>Security\<close> and \<open>Basics\<close>, and its projection with \<open>max_slides = 10\<close> has the four
  slides below.
\<close>

theorem security_scenario_on_the_code:
  "parse_outline ''AI 101\<newline>1. Security\<newline>1.1 Basics\<newline>1.1.1 Intro\<newline>1.1.1.1 Point A\<newline>1.1.1.2 Point B''
   = Inr ([(''Module 1'',
        \<lparr>module_title = ''Main Module'',
           topics =
             [(''Topic 1'', \<lparr>topic_title = ''Security'', subtopics = []\<rparr>),
              (''Topic 1.1'',
               \<lparr>topic_title = ''Basics'',
                  subtopics =
                    [(''Subtopic 1.1.1'',
                      \<lparr>subtopic_title = ''Intro'',
                         points = [''Point A'', ''Point B'']\<rparr>)]\<rparr>)]\<rparr>)],
      ''AI 101'') \<and>
   prepare_slides_data
     [(''Module 1'',
        \<lparr>module_title = ''Main Module'',
           topics =
             [(''Topic 1'', \<lparr>topic_title = ''Security'', subtopics = []\<rparr>),
              (''Topic 1.1'',
               \<lparr>topic_title = ''Basics'',
                  subtopics =
                    [(''Subtopic 1.1.1'',
                      \<lparr>subtopic_title = ''Intro'',
                         points = [''Point A'', ''Point B'']\<rparr>)]\<rparr>)]\<rparr>)] 10
   = Inr [\<lparr>title_of = ''Module 1: Main Module'',
         content_of = [''Security'', ''Basics''],
         color_of = (0, 32, 96), type_of = ''module''\<rparr>,
      \<lparr>title_of = ''1: Security'', content_of = [],
         color_of = (0, 112, 192), type_of = ''topic''\<rparr>,
      \<lparr>title_of = ''1.1: Basics'', content_of = [''Intro''],
         color_of = (0, 112, 192), type_of = ''topic''\<rparr>,
      \<lparr>title_of = ''Intro'', content_of = [''Point A'', ''Point B''],
         color_of = (0, 176, 240), type_of = ''subtopic''\<rparr>]"
  by code_simp

section \<open>Projection: the capped list is a prefix of the full list\<close>

lemma subtopics_loop_take:
  "subtopics_loop n ss acc =
     acc @ take (nat n - length acc) (map (\<lambda>(s, sd). subtopic_slide sd) ss)"
proof (induction ss arbitrary: acc)
  case Nil
  then show ?case by simp
next
  case (Cons p ss)
  obtain s sd where p: "p = (s, sd)" by (cases p)
  show ?case
  proof (cases "cap_reached acc n")
    case True
    then have "nat n - length acc = 0" by (simp add: cap_reached_def)
    with True p show ?thesis by simp
  next
    case False
    then have lt: "length acc < nat n" by (simp add: cap_reached_def)
    show ?thesis
    proof (cases "cap_reached (acc @ [subtopic_slide sd]) n")
      case True
      with lt have "nat n - length acc = Suc 0" by (simp add: cap_reached_def)
      with True False p show ?thesis by (simp add: Let_def)
    next
      case c2: False
      then have "nat n - length acc = Suc (nat n - length (acc @ [subtopic_slide sd]))"
        by (simp add: cap_reached_def)
      with c2 False p Cons.IH[of "acc @ [subtopic_slide sd]"] show ?thesis
        by (simp add: Let_def)
    qed
  qed
qed

lemma topic_number_of_ok:
  "2 \<le> length (split_ws t) \<Longrightarrow> topic_number_of t = Inr (split_ws t ! 1)"
  by (cases "split_ws t"; auto simp add: topic_number_of_def split: list.splits)

lemma topics_loop_take:
  "topic_keys_ok ts \<Longrightarrow>
   topics_loop n ts acc = Inr (acc @ take (nat n - length acc) (concat (map topic_slides ts)))"
proof (induction ts arbitrary: acc)
  case Nil
  then show ?case by simp
next
  case (Cons p ts)
  obtain t td where p: "p = (t, td)" by (cases p)
  from Cons.prems p have k: "2 \<le> length (split_ws t)" and ks: "topic_keys_ok ts"
    by (simp_all add: topic_keys_ok_def)
  note tn = topic_number_of_ok[OF k]
  let ?x = "topic_slide (split_ws t ! 1) td"
  let ?subs = "map (\<lambda>(s, sd). subtopic_slide sd) (subtopics td)"
  have ts: "topic_slides p = ?x # ?subs" by (simp add: topic_slides_def p)
  show ?case
  proof (cases "cap_reached acc n")
    case True
    then have "nat n - length acc = 0" by (simp add: cap_reached_def)
    with True p show ?thesis by simp
  next
    case False
    then have lt: "length acc < nat n" by (simp add: cap_reached_def)
    show ?thesis
    proof (cases "cap_reached (acc @ [?x]) n")
      case True
      with lt have "nat n - length acc = Suc 0" by (simp add: cap_reached_def)
      with True False p tn ts show ?thesis by (simp add: Let_def)
    next
      case c2: False
      define k where "k = nat n - length (acc @ [?x])"
      from c2 have kk: "nat n - length acc = Suc k"
        by (simp add: cap_reached_def k_def)
      have "topics_loop n (p # ts) acc =
            topics_loop n ts (subtopics_loop n (subtopics td) (acc @ [?x]))"
        using c2 False p tn by (simp add: Let_def)
      also have "\<dots> = topics_loop n ts ((acc @ [?x]) @ take k ?subs)"
        by (simp only: subtopics_loop_take k_def)
      also have "\<dots> = Inr (((acc @ [?x]) @ take k ?subs) @
          take (nat n - length ((acc @ [?x]) @ take k ?subs)) (concat (map topic_slides ts)))"
        by (rule Cons.IH[OF ks])
      also have "nat n - length ((acc @ [?x]) @ take k ?subs) = k - length ?subs"
        by (simp add: k_def min_def)
      finally show ?thesis
        by (simp add: ts kk)
    qed
  qed
qed

lemma modules_loop_take:
  "outline_keys_ok ms \<Longrightarrow> int (length acc) < n \<Longrightarrow>
   modules_loop n ms acc = Inr (acc @ take (nat n - length acc) (all_slides ms))"
proof (induction ms arbitrary: acc)
  case Nil
  then show ?case by (simp add: all_slides_def)
next
  case (Cons p ms)
  obtain m md where p: "p = (m, md)" by (cases p)
  from Cons.prems p have k: "topic_keys_ok (topics md)" and ks: "outline_keys_ok ms"
    by (simp_all add: outline_keys_ok_def)
  show ?case
  proof (cases "topics md = []")
    case True
    with p Cons.IH[OF ks Cons.prems(2)] show ?thesis
      by (simp add: all_slides_def module_slides_def)
  next
    case False
    let ?x = "module_slide m md"
    let ?tl = "concat (map topic_slides (topics md))"
    have ms: "module_slides p = ?x # ?tl" using False by (simp add: module_slides_def p)
    from Cons.prems(2) have lt: "length acc < nat n" by simp
    show ?thesis
    proof (cases "cap_reached (acc @ [?x]) n")
      case True
      with lt have "nat n - length acc = Suc 0" by (simp add: cap_reached_def)
      with True False p ms show ?thesis by (simp add: Let_def all_slides_def)
    next
      case c2: False
      define k where "k = nat n - length (acc @ [?x])"
      from c2 have kk: "nat n - length acc = Suc k"
        by (simp add: cap_reached_def k_def)
      define acc2 where "acc2 = (acc @ [?x]) @ take k ?tl"
      have t: "topics_loop n (topics md) (acc @ [?x]) = Inr acc2"
        unfolding acc2_def k_def by (rule topics_loop_take[OF k])
      have len2: "nat n - length acc2 = k - length ?tl"
        by (simp add: acc2_def k_def min_def)
      show ?thesis
      proof (cases "cap_reached acc2 n")
        case True
        then have "k - length ?tl = 0" using len2 by (simp add: cap_reached_def)
        with True c2 False p t ms kk show ?thesis
          by (simp add: Let_def all_slides_def acc2_def)
      next
        case c3: False
        then have "int (length acc2) < n" by (simp add: cap_reached_def)
        from Cons.IH[OF ks this] c3 c2 False p t
        have "modules_loop n (p # ms) acc =
              Inr (acc2 @ take (nat n - length acc2) (all_slides ms))"
          by (simp add: Let_def)
        then have "modules_loop n (p # ms) acc =
              Inr (acc2 @ take (k - length ?tl) (all_slides ms))"
          by (simp only: len2)
        then show ?thesis
          by (simp add: all_slides_def ms kk acc2_def)
      qed
    qed
  qed
qed

lemma prepare_slides_data_take:
  "outline_keys_ok out \<Longrightarrow> 1 \<le> n \<Longrightarrow>
   prepare_slides_data out n = Inr (take (nat n) (all_slides out))"
  using modules_loop_take[of out "[]" n] by (simp add: prepare_slides_data_def)

lemma modules_loop_empty:
  "all_slides ms = [] \<Longrightarrow> modules_loop n ms acc = Inr acc"
proof (induction ms)
  case Nil then show ?case by simp
next
  case (Cons p ms)
  obtain m md where p: "p = (m, md)" by (cases p)
  from Cons.prems p have "topics md = []" "all_slides ms = []"
    by (auto simp: all_slides_def module_slides_def split: if_splits)
  with Cons.IH p show ?case by simp
qed

lemma modules_loop_one:
  "modules_loop 1 ms [] =
     Inr (case dropWhile (\<lambda>(m, md). topics md = []) ms of
            [] \<Rightarrow> []
          | (m, md) # _ \<Rightarrow> [module_slide m md])"
proof (induction ms)
  case Nil then show ?case by simp
next
  case (Cons p ms)
  obtain m md where p: "p = (m, md)" by (cases p)
  with Cons.IH show ?case by (simp add: Let_def cap_reached_def)
qed

lemma topics_loop_bound:
  "topics_loop n ts acc = Inr r \<Longrightarrow> length r \<le> max (length acc) (nat n)"
proof (induction ts arbitrary: acc r)
  case Nil then show ?case by simp
next
  case (Cons p ts)
  obtain t td where p: "p = (t, td)" by (cases p)
  show ?case
  proof (cases "cap_reached acc n")
    case True
    with Cons.prems p show ?thesis by simp
  next
    case False
    then have lt: "length acc < nat n" by (simp add: cap_reached_def)
    from Cons.prems p False obtain k where tn: "topic_number_of t = Inr k"
      by (cases "topic_number_of t") auto
    let ?a = "acc @ [topic_slide k td]"
    show ?thesis
    proof (cases "cap_reached ?a n")
      case True
      with Cons.prems p False tn lt show ?thesis by (auto simp: Let_def)
    next
      case c2: False
      with Cons.prems p False tn
      have "topics_loop n ts (subtopics_loop n (subtopics td) ?a) = Inr r"
        by (simp add: Let_def)
      from Cons.IH[OF this] have "length r \<le> max (length (subtopics_loop n (subtopics td) ?a)) (nat n)" .
      moreover have "length (subtopics_loop n (subtopics td) ?a) \<le> nat n"
        using c2 by (simp add: subtopics_loop_take cap_reached_def)
      ultimately show ?thesis by simp
    qed
  qed
qed

lemma modules_loop_bound:
  "modules_loop n ms acc = Inr r \<Longrightarrow> int (length acc) < n \<Longrightarrow> length r \<le> nat n"
proof (induction ms arbitrary: acc r)
  case Nil then show ?case by simp
next
  case (Cons p ms)
  obtain m md where p: "p = (m, md)" by (cases p)
  show ?case
  proof (cases "topics md = []")
    case True
    with Cons p show ?thesis by simp
  next
    case False
    let ?a = "acc @ [module_slide m md]"
    from Cons.prems(2) have lt: "length acc < nat n" by simp
    show ?thesis
    proof (cases "cap_reached ?a n")
      case True
      with Cons.prems p False lt show ?thesis by (auto simp: Let_def)
    next
      case c2: False
      with Cons.prems p False obtain a2 where t: "topics_loop n (topics md) ?a = Inr a2"
        by (cases "topics_loop n (topics md) ?a") (auto simp: Let_def)
      from topics_loop_bound[OF t] c2 have b2: "length a2 \<le> nat n"
        by (simp add: cap_reached_def)
      show ?thesis
      proof (cases "cap_reached a2 n")
        case True
        with Cons.prems p False c2 t b2 show ?thesis by (auto simp: Let_def)
      next
        case c3: False
        with Cons.prems p False c2 t have "modules_loop n ms a2 = Inr r" by (simp add: Let_def)
        moreover from c3 have "int (length a2) < n" by (simp add: cap_reached_def)
        ultimately show ?thesis by (rule Cons.IH)
      qed
    qed
  qed
qed

section \<open>Projection without a cap\<close>

text \<open>
  Claim C3, as the code has it: for every outline whose topic keys carry a number and
  every \<open>max_slides\<close> that is at least the number of slides, the projection returns, in
  the insertion order of the outline, for each module that has at least one topic its
  module slide, then for each of its topics the topic slide followed by one slide per
  subtopic, and no slide per point; a module without topics is skipped and gets no slide.
  The bullets of a module slide are the titles of its topics, those of a topic slide the
  titles of its subtopics, those of a subtopic slide its points, one bullet per child in
  the order of the children.
\<close>

theorem projection_uncapped:
  "(outline_keys_ok out \<and> int (length (all_slides out)) \<le> n \<longrightarrow>
      prepare_slides_data out n = Inr (all_slides out)) \<and>
   all_slides (out @ out') = all_slides out @ all_slides out' \<and>
   all_slides [(m, md)] =
     (if topics md = [] then []
      else module_slide m md # concat (map topic_slides (topics md))) \<and>
   topic_slides (t, td) =
     topic_slide (split_ws t ! 1) td # map (\<lambda>(s, sd). subtopic_slide sd) (subtopics td) \<and>
   content_of (module_slide m md) = map (\<lambda>(t, td). topic_title td) (topics md) \<and>
   content_of (topic_slide k td) = map (\<lambda>(s, sd). subtopic_title sd) (subtopics td) \<and>
   content_of (subtopic_slide sd) = points sd"
proof -
  have "prepare_slides_data out n = Inr (all_slides out)"
    if k: "outline_keys_ok out" and l: "int (length (all_slides out)) \<le> n"
  proof (cases "all_slides out = []")
    case True
    then show ?thesis by (simp add: prepare_slides_data_def modules_loop_empty)
  next
    case False
    with l have "1 \<le> n" by (cases "all_slides out") auto
    from prepare_slides_data_take[OF k this] l show ?thesis by simp
  qed
  then show ?thesis
    by (simp add: all_slides_def module_slides_def topic_slides_def module_slide_def
        topic_slide_def subtopic_slide_def)
qed

theorem projection_uncapped_witness:
  "prepare_slides_data scenario_outline 10 = Inr (all_slides scenario_outline) \<and>
   length (all_slides scenario_outline) = 4"
proof -
  have k: "outline_keys_ok scenario_outline" by code_simp
  have l: "length (all_slides scenario_outline) = 4" by code_simp
  from projection_uncapped [where out = scenario_outline and n = 10, THEN conjunct1] k l
  show ?thesis by simp
qed

text \<open>
  Claim C3 as stated fails: the outline parsed from the lines \<open>T\<close>, \<open>1 A\<close> has one module,
  and the projection gives it no slide.
\<close>

theorem module_without_topics_has_no_slide:
  "parse_outline ''T\<newline>1 A'' =
     Inr ([(''Module 1'', \<lparr>module_title = ''A'', topics = []\<rparr>)], ''T'') \<and>
   prepare_slides_data [(''Module 1'', \<lparr>module_title = ''A'', topics = []\<rparr>)] 10 = Inr []"
  by code_simp

section \<open>Projection under the cap\<close>

text \<open>
  Claim C4, as the code has it: for every outline and every \<open>max_slides\<close> of at least 1,
  a projection that returns has at most \<open>max_slides\<close> slides; when the topic keys carry a
  number it returns exactly the first \<open>max_slides\<close> slides of the uncapped projection, so
  it stops right at the cap, possibly inside a module. With \<open>max_slides = 1\<close> the result
  is the module slide of the first module that has at least one topic, and nothing else
  (no slide at all when no module has topics); modules without topics are skipped.
\<close>

theorem projection_cap:
  "(1 \<le> n \<and> prepare_slides_data out n = Inr slides \<longrightarrow> int (length slides) \<le> n) \<and>
   (1 \<le> n \<and> outline_keys_ok out \<longrightarrow>
      prepare_slides_data out n = Inr (take (nat n) (all_slides out))) \<and>
   prepare_slides_data out 1 =
     Inr (case dropWhile (\<lambda>(m, md). topics md = []) out of
            [] \<Rightarrow> []
          | (m, md) # _ \<Rightarrow> [module_slide m md])"
proof -
  have "int (length slides) \<le> n" if "1 \<le> n" "prepare_slides_data out n = Inr slides"
    using modules_loop_bound[of n out "[]" slides] that
    by (simp add: prepare_slides_data_def)
  moreover have "prepare_slides_data out n = Inr (take (nat n) (all_slides out))"
    if "1 \<le> n" "outline_keys_ok out"
    using prepare_slides_data_take that by simp
  ultimately show ?thesis
    by (simp add: prepare_slides_data_def modules_loop_one)
qed

theorem projection_cap_witness:
  "prepare_slides_data scenario_outline 2 =
     Inr [\<lparr>title_of = ''Module 1: Main Module'', content_of = [''Security'', ''Basics''],
           color_of = (0, 32, 96), type_of = ''module''\<rparr>,
          \<lparr>title_of = ''1: Security'', content_of = [],
           color_of = (0, 112, 192), type_of = ''topic''\<rparr>] \<and>
   prepare_slides_data scenario_outline 1 =
     Inr [\<lparr>title_of = ''Module 1: Main Module'', content_of = [''Security'', ''Basics''],
           color_of = (0, 32, 96), type_of = ''module''\<rparr>]"
proof -
  have k: "outline_keys_ok scenario_outline" by code_simp
  have t: "take (nat 2) (all_slides scenario_outline) =
     [\<lparr>title_of = ''Module 1: Main Module'', content_of = [''Security'', ''Basics''],
           color_of = (0, 32, 96), type_of = ''module''\<rparr>,
          \<lparr>title_of = ''1: Security'', content_of = [],
           color_of = (0, 112, 192), type_of = ''topic''\<rparr>]" by code_simp
  have d: "(case dropWhile (\<lambda>(m, md). topics md = []) scenario_outline of
            [] \<Rightarrow> []
          | (m, md) # _ \<Rightarrow> [module_slide m md]) =
     [\<lparr>title_of = ''Module 1: Main Module'', content_of = [''Security'', ''Basics''],
           color_of = (0, 32, 96), type_of = ''module''\<rparr>]" by code_simp
  note c = projection_cap [where out = scenario_outline and n = 2]
  from c [THEN conjunct2, THEN conjunct1] k t
  have a: "prepare_slides_data scenario_outline 2 =
     Inr [\<lparr>title_of = ''Module 1: Main Module'', content_of = [''Security'', ''Basics''],
           color_of = (0, 32, 96), type_of = ''module''\<rparr>,
          \<lparr>title_of = ''1: Security'', content_of = [],
           color_of = (0, 112, 192), type_of = ''topic''\<rparr>]" by simp
  from c [THEN conjunct2, THEN conjunct2] d
  have b: "prepare_slides_data scenario_outline 1 =
     Inr [\<lparr>title_of = ''Module 1: Main Module'', content_of = [''Security'', ''Basics''],
           color_of = (0, 32, 96), type_of = ''module''\<rparr>]" by simp
  from a b show ?thesis by (rule conjI)
qed

text \<open>
  Claim C4 as stated fails: on the two-module outline parsed from the lines \<open>T\<close>,
  \<open>1 A\<close>, \<open>2 B\<close>, \<open>2.1 C\<close>, the projection with \<open>max_slides = 1\<close> yields the slide of the
  second module, not of the first.
\<close>

theorem cap_one_skips_module_without_topics:
  "parse_outline ''T\<newline>1 A\<newline>2 B\<newline>2.1 C'' = Inr (two_module_outline, ''T'') \<and>
   prepare_slides_data two_module_outline 1 =
     Inr [\<lparr>title_of = ''Module 2: B'', content_of = [''C''],
           color_of = (0, 32, 96), type_of = ''module''\<rparr>]"
  by code_simp

section \<open>Fenced and bare responses\<close>

lemma rstrip_fixed:
  assumes "y \<noteq> []" "\<not> is_space (last y)"
  shows "rstrip y = y"
proof -
  from assms have "rev y \<noteq> []" "\<not> is_space (hd (rev y))" by (simp_all add: hd_rev)
  then have "dropWhile is_space (rev y) = rev y" by (cases "rev y") auto
  then show ?thesis by (simp add: rstrip_def)
qed

lemma rstrip_last:
  assumes "rstrip s \<noteq> []"
  shows "\<not> is_space (last (rstrip s))"
proof -
  let ?d = "dropWhile is_space (rev s)"
  from assms have d: "?d \<noteq> []" by (simp add: rstrip_def)
  then have "\<not> is_space (hd ?d)" by (rule hd_dropWhile)
  moreover have "last (rstrip s) = hd ?d" using d by (simp add: rstrip_def last_rev)
  ultimately show ?thesis by simp
qed

lemma last_dropWhile_eq:
  "dropWhile P xs \<noteq> [] \<Longrightarrow> last (dropWhile P xs) = last xs"
proof -
  assume a: "dropWhile P xs \<noteq> []"
  have "last xs = last (takeWhile P xs @ dropWhile P xs)" by simp
  also have "\<dots> = last (dropWhile P xs)" by (rule last_appendR[OF a])
  finally show ?thesis by simp
qed

lemma strip_strip: "strip (strip s) = strip s"
proof (cases "strip s = []")
  case True
  have "strip [] = []" by (simp add: strip_def lstrip_def rstrip_def)
  with True show ?thesis by simp
next
  case False
  then have ne: "dropWhile is_space (rstrip s) \<noteq> []" by (simp add: strip_def lstrip_def)
  then have r: "rstrip s \<noteq> []" by auto
  have "last (strip s) = last (rstrip s)"
    unfolding strip_def lstrip_def by (rule last_dropWhile_eq[OF ne])
  with rstrip_last[OF r] have "\<not> is_space (last (strip s))" by simp
  from rstrip_fixed[OF False this] show ?thesis
    by (simp add: strip_def lstrip_def)
qed

lemma rstrip_snoc_space: "is_space c \<Longrightarrow> rstrip (s @ [c]) = rstrip s"
  by (simp add: rstrip_def)

lemma strip_cons_space:
  assumes "is_space c"
  shows "strip (c # s) = strip s"
proof (cases "\<forall>x\<in>set s. is_space x")
  case True
  have a: "rstrip (c # s) = []" using True assms by (simp add: rstrip_def)
  have b: "rstrip s = []" using True by (simp add: rstrip_def)
  show ?thesis by (simp add: strip_def a b)
next
  case False
  then have "dropWhile is_space (rev s @ [c]) = dropWhile is_space (rev s) @ [c]"
    by (auto simp: dropWhile_append)
  with assms show ?thesis by (simp add: strip_def lstrip_def rstrip_def)
qed

lemma strip_between_newlines: "strip (CHR 0x0A # j @ [CHR 0x0A]) = strip j"
proof -
  have n: "is_space (CHR 0x0A)" by (simp add: is_space_def whitespace_chars_def)
  have "strip (CHR 0x0A # j @ [CHR 0x0A]) = strip (j @ [CHR 0x0A])"
    by (rule strip_cons_space[OF n])
  also have "\<dots> = strip j" by (simp add: strip_def rstrip_snoc_space[OF n])
  finally show ?thesis .
qed

lemma find_at_skip:
  "(\<forall>k<length xs. \<not> startswith p (drop k (xs @ rest))) \<Longrightarrow>
   find_at p i (xs @ rest) = find_at p (i + length xs) rest"
proof (induction xs arbitrary: i)
  case Nil
  then show ?case by simp
next
  case (Cons x xs)
  from Cons.prems have 0: "\<not> startswith p (x # xs @ rest)" by force
  from Cons.prems have "\<forall>k<length xs. \<not> startswith p (drop k (xs @ rest))" by force
  from Cons.IH[OF this, of "Suc i"] 0 show ?case by simp
qed

lemma find_at_found:
  "startswith p (drop k s) \<Longrightarrow> 0 \<le> find_at p i s"
proof (induction s arbitrary: i k)
  case Nil
  then show ?case by (simp add: startswith_def)
next
  case (Cons c cs)
  show ?case
  proof (cases "startswith p (c # cs)")
    case True then show ?thesis by simp
  next
    case False
    with Cons.prems obtain k' where "k = Suc k'" by (cases k) auto
    with Cons.prems have "startswith p (drop k' cs)" by simp
    from Cons.IH[OF this] False show ?thesis by simp
  qed
qed

lemma find_at_occurrence:
  "0 \<le> find_at p i s \<Longrightarrow> \<exists>k. startswith p (drop k s)"
proof (induction s arbitrary: i)
  case Nil
  then show ?case by (auto simp: startswith_def split: if_splits)
next
  case (Cons c cs)
  show ?case
  proof (cases "startswith p (c # cs)")
    case True
    then have "startswith p (drop 0 (c # cs))" by simp
    then show ?thesis by blast
  next
    case False
    with Cons.prems have "0 \<le> find_at p (Suc i) cs" by simp
    from Cons.IH[OF this] obtain k where "startswith p (drop k cs)" by blast
    then have "startswith p (drop (Suc k) (c # cs))" by simp
    then show ?thesis by blast
  qed
qed

lemma no_occurrence: "\<not> contains p s \<Longrightarrow> \<not> startswith p (drop k s)"
  using find_at_found[of p k s 0] by (auto simp: contains_def py_find_def)

lemma fence_open_has_close: "startswith fence_open x \<Longrightarrow> startswith fence_close x"
proof -
  assume a: "startswith fence_open x"
  have "x = take (length fence_open) x @ drop (length fence_open) x" by simp
  with a have "x = fence_open @ drop (length fence_open) x" by (simp add: startswith_def)
  then obtain r where "x = fence_open @ r" by blast
  then show ?thesis by (simp add: startswith_def fence_open_def fence_close_def)
qed

lemma no_fence_open: "\<not> contains fence_close j \<Longrightarrow> \<not> contains fence_open j"
proof
  assume a: "\<not> contains fence_close j" and b: "contains fence_open j"
  from b obtain k where "startswith fence_open (drop k j)"
    using find_at_occurrence[of fence_open 0 j] by (auto simp: contains_def py_find_def)
  then have "startswith fence_close (drop k j)" by (rule fence_open_has_close)
  with no_occurrence[OF a, of k] show False by simp
qed

lemma close_not_across_newline:
  assumes "\<not> startswith fence_close t"
  shows "\<not> startswith fence_close (t @ CHR 0x0A # r)"
proof (cases t)
  case Nil then show ?thesis by (simp add: startswith_def fence_close_def)
next
  case (Cons a t1)
  show ?thesis
  proof (cases t1)
    case Nil with Cons show ?thesis by (simp add: startswith_def fence_close_def)
  next
    case (Cons b t2)
    note c2 = this
    show ?thesis
    proof (cases t2)
      case Nil with c2 \<open>t = a # t1\<close> show ?thesis by (simp add: startswith_def fence_close_def)
    next
      case (Cons c t3)
      with c2 \<open>t = a # t1\<close> assms show ?thesis by (simp add: startswith_def fence_close_def)
    qed
  qed
qed

lemma find_close_in_fenced:
  assumes "\<not> contains fence_close j"
  shows "find_at fence_close 7 (CHR 0x0A # j @ CHR 0x0A # fence_close) = int (length j) + 9"
proof -
  let ?xs = "CHR 0x0A # j @ [CHR 0x0A]"
  have "\<not> startswith fence_close (drop k (?xs @ fence_close))" if "k < length ?xs" for k
  proof (cases k)
    case 0
    then show ?thesis by (simp add: startswith_def fence_close_def)
  next
    case (Suc k')
    with that have "k' \<le> length j" by simp
    then have "drop k (?xs @ fence_close) = drop k' j @ CHR 0x0A # fence_close"
      using Suc by simp
    with close_not_across_newline[OF no_occurrence[OF assms, of k']] show ?thesis by simp
  qed
  then have "find_at fence_close 7 (?xs @ fence_close) =
             find_at fence_close (7 + length ?xs) fence_close"
    by (intro find_at_skip) blast
  also have "\<dots> = int (7 + length ?xs)"
    by (simp add: fence_close_def startswith_def)
  finally show ?thesis by simp
qed

lemma clean_unfenced:
  assumes "\<not> contains fence_close j"
  shows "clean_json_response j =
     (let response2 = strip j
      in if \<not> startswith ''{'' response2
         then (let start_idx = py_find ''{'' response2
               in if 0 \<le> start_idx then drop (nat start_idx) response2 else response2)
         else response2)"
  using no_fence_open[OF assms] by (simp add: clean_json_response_def)

lemma clean_fenced:
  assumes "\<not> contains fence_close j"
  shows "clean_json_response (fenced j) =
     (let response2 = strip j
      in if \<not> startswith ''{'' response2
         then (let start_idx = py_find ''{'' response2
               in if 0 \<le> start_idx then drop (nat start_idx) response2 else response2)
         else response2)"
proof -
  have f0: "py_find fence_open (fenced j) = 0"
    by (simp add: py_find_def fenced_def fence_open_def startswith_def)
  then have c: "contains fence_open (fenced j)" by (simp add: contains_def)
  have d: "drop 7 (fenced j) = CHR 0x0A # j @ CHR 0x0A # fence_close"
    by (simp add: fenced_def fence_open_def)
  have e: "py_find_from fence_close (fenced j) 7 = int (length j) + 9"
    using find_close_in_fenced[OF assms]
    by (simp add: py_find_from_def d) (simp add: fenced_def fence_open_def)
  have s: "slice (fenced j) 7 (length j + 9) = CHR 0x0A # j @ [CHR 0x0A]"
    by (simp add: slice_def d)
  have n: "nat (int (length j) + 9) = length j + 9" by simp
  have "(if contains fence_open (fenced j)
         then (let json_start = py_find fence_open (fenced j) + 7;
                   json_end = py_find_from fence_close (fenced j) (nat json_start)
               in if json_end > json_start
                  then strip (slice (fenced j) (nat json_start) (nat json_end))
                  else fenced j)
         else fenced j) = strip j"
    by (simp add: c f0 e n s strip_between_newlines Let_def)
  then show ?thesis
    unfolding clean_json_response_def by (simp only: Let_def strip_strip)
qed

text \<open>
  Claim C7, as the code has it: for every text \<open>j\<close> that does not contain three
  consecutive backticks, the response that wraps \<open>j\<close> in a fenced block is cleaned to the
  same string as \<open>j\<close> itself, so the JSON decoder receives the same text and the two
  parses agree.
\<close>

theorem fenced_json_cleaned_alike:
  "\<not> contains fence_close j \<longrightarrow>
     clean_json_response (fenced j) = clean_json_response j \<and>
     parse_response json_loads (fenced j) = parse_response json_loads j"
  by (simp add: parse_response_def clean_fenced clean_unfenced)

theorem fenced_json_cleaned_alike_witness:
  \<open>\<not> contains fence_close ''{"a": "b"}'' \<and>
   clean_json_response (fenced ''{"a": "b"}'') = clean_json_response ''{"a": "b"}''\<close>
proof -
  have a: \<open>\<not> contains fence_close ''{"a": "b"}''\<close> by code_simp
  from fenced_json_cleaned_alike [where j = \<open>''{"a": "b"}''\<close> and json_loads = Some] a
  show ?thesis by blast
qed

text \<open>
  Claim C7 as stated fails: for a JSON object whose string value holds three backticks,
  the fenced response is cut at those backticks and the decoder receives a truncated
  text (an unterminated string, which \<open>json.loads\<close> rejects), while the bare response
  is passed to the decoder whole.
\<close>

theorem backticks_inside_json_cut_the_fence:
  \<open>clean_json_response (fenced ''{"a": "```"}'') = ''{"a": "'' \<and>
   clean_json_response ''{"a": "```"}'' = ''{"a": "```"}''\<close>
  by code_simp

section \<open>Prompts depend on the title only\<close>

text \<open>
  Claim C10: for every prompt cache, title \<open>t\<close> and contents \<open>c1\<close> and \<open>c2\<close>,
  \<open>get_enhanced_prompt(t, c1)\<close> equals \<open>get_enhanced_prompt(t, c2)\<close>: it is the cached
  prompt when the title is a key of the cache and the fallback prompt built from the
  title otherwise, so two slides with equal titles and different contents receive the
  same prompt.
\<close>

theorem prompt_ignores_content:
  "get_enhanced_prompt prompt_cache t c1 = get_enhanced_prompt prompt_cache t c2 \<and>
   (map_of prompt_cache t = Some p \<longrightarrow> get_enhanced_prompt prompt_cache t c1 = p) \<and>
   (map_of prompt_cache t = None \<longrightarrow>
      get_enhanced_prompt prompt_cache t c1 = create_fallback_prompt t)"
  by (simp add: get_enhanced_prompt_def)

theorem prompt_ignores_content_witness:
  "get_enhanced_prompt [(''Intro'', ''a lighthouse'')] ''Intro'' ''Point A'' =
   get_enhanced_prompt [(''Intro'', ''a lighthouse'')] ''Intro'' ''Point B'' \<and>
   get_enhanced_prompt [(''Intro'', ''a lighthouse'')] ''Intro'' ''Point A'' = ''a lighthouse'' \<and>
   get_enhanced_prompt [] ''Intro'' ''Point A'' = create_fallback_prompt ''Intro''"
proof -
  note a = prompt_ignores_content [of "[(''Intro'', ''a lighthouse'')]" "''Intro''"
      "''Point A''" "''Point B''" "''a lighthouse''"]
  note b = prompt_ignores_content [of "[]" "''Intro''" "''Point A''" "''Point A''" "[]"]
  have m: "map_of [(''Intro'', ''a lighthouse'')] ''Intro'' = Some ''a lighthouse''" by simp
  have n: "map_of ([] :: (string \<times> string) list) ''Intro'' = None" by simp
  from a b m n show ?thesis by blast
qed

section \<open>Notes of the title slide\<close>















section \<open>File names and presentation order\<close>

lemma of_char_digit: "a < 10 \<Longrightarrow> (of_char (digit_char a) :: nat) = 48 + a"
proof -
  assume "a < 10"
  then have "a = 0 \<or> a = 1 \<or> a = 2 \<or> a = 3 \<or> a = 4 \<or> a = 5 \<or> a = 6 \<or> a = 7 \<or> a = 8 \<or> a = 9"
    by arith
  then show ?thesis by (auto simp: digit_char_def)
qed

lemma digit_char_less: "a < 10 \<Longrightarrow> b < 10 \<Longrightarrow> (digit_char a < digit_char b) = (a < b)"
  by (simp add: less_char_def of_char_digit)

lemma digit_char_eq: "a < 10 \<Longrightarrow> b < 10 \<Longrightarrow> (digit_char a = digit_char b) = (a = b)"
proof
  assume "a < 10" "b < 10" "digit_char a = digit_char b"
  then have "(of_char (digit_char a) :: nat) = of_char (digit_char b)" by simp
  with \<open>a < 10\<close> \<open>b < 10\<close> show "a = b" by (simp add: of_char_digit)
qed simp

lemma str1: "n < 10 \<Longrightarrow> str_of_nat n = [digit_char n]"
  by (subst str_of_nat.simps) simp

lemma str2: "10 \<le> n \<Longrightarrow> n < 100 \<Longrightarrow> str_of_nat n = [digit_char (n div 10), digit_char (n mod 10)]"
  by (subst str_of_nat.simps) (simp add: str1)

lemma str3: "100 \<le> n \<Longrightarrow> n < 1000 \<Longrightarrow>
   str_of_nat n = [digit_char (n div 100), digit_char (n div 10 mod 10), digit_char (n mod 10)]"
proof -
  assume a: "100 \<le> n" "n < 1000"
  then have "10 \<le> n div 10" "n div 10 < 100" by auto
  from str2[OF this] have "str_of_nat (n div 10) = [digit_char (n div 100), digit_char (n div 10 mod 10)]"
    by (simp add: div_mult2_eq[symmetric])
  with a show ?thesis by (subst str_of_nat.simps) simp
qed

lemma digit0: "digit_char 0 = CHR ''0''"
  by (simp add: digit_char_def)

lemma fmt3: "n < 1000 \<Longrightarrow>
   format_0d 3 n = [digit_char (n div 100), digit_char (n div 10 mod 10), digit_char (n mod 10)]"
proof -
  assume a: "n < 1000"
  consider "n < 10" | "10 \<le> n" "n < 100" | "100 \<le> n" by linarith
  then show ?thesis
  proof cases
    case 1
    then show ?thesis by (simp add: format_0d_def str1 digit0 numeral_3_eq_3)
  next
    case 2
    then have "n div 100 = 0" by simp
    with 2 show ?thesis by (simp add: format_0d_def str2 digit0)
  next
    case 3
    with a show ?thesis by (simp add: format_0d_def str3)
  qed
qed

lemma fmt2: "n < 100 \<Longrightarrow> format_0d 2 n = [digit_char (n div 10), digit_char (n mod 10)]"
proof -
  assume a: "n < 100"
  show ?thesis
  proof (cases "n < 10")
    case True
    then show ?thesis by (simp add: format_0d_def str1 digit0)
  next
    case False
    with a show ?thesis by (simp add: format_0d_def str2)
  qed
qed

lemma div_mod_lex:
  fixes m n k :: nat
  assumes "m < n" "0 < k"
  shows "m div k < n div k \<or> (m div k = n div k \<and> m mod k < n mod k)"
proof (cases "m div k = n div k")
  case True
  have "k * (m div k) + m mod k = m" "k * (n div k) + n mod k = n" by simp_all
  with True assms(1) have "m mod k < n mod k" by (metis nat_add_left_cancel_less)
  with True show ?thesis by simp
next
  case False
  moreover have "m div k \<le> n div k" using assms(1) by (simp add: div_le_mono)
  ultimately show ?thesis by simp
qed

lemma h1: "(m mod 100) div 10 = m div 10 mod (10::nat)"
proof -
  have "m mod (10 * 10) = 10 * (m div 10 mod 10) + m mod 10" by (rule mod_mult2_eq)
  then show ?thesis by simp
qed

lemma h2: "(m mod 100) mod 10 = m mod (10::nat)"
  by (simp add: mod_mod_cancel)

lemma three_digit_lex:
  fixes m n :: nat
  assumes "m < n"
  shows "m div 100 < n div 100 \<or>
     (m div 100 = n div 100 \<and> (m div 10 mod 10 < n div 10 mod 10 \<or>
        (m div 10 mod 10 = n div 10 mod 10 \<and> m mod 10 < n mod 10)))"
proof -
  from div_mod_lex[OF assms, of 100]
  consider "m div 100 < n div 100" | "m div 100 = n div 100" "m mod 100 < n mod 100" by auto
  then show ?thesis
  proof cases
    case 1 then show ?thesis by simp
  next
    case 2
    from div_mod_lex[OF 2(2), of 10] 2(1) show ?thesis by (simp add: h1 h2)
  qed
qed
lemma fmt3_less:
  assumes "m < n" "n < 1000"
  shows "format_0d 3 m @ x < format_0d 3 n @ y"
proof -
  from assms have m: "m < 1000" by simp
  have b: "m div 100 < 10" "n div 100 < 10" "m div 10 mod 10 < 10" "n div 10 mod 10 < 10"
    "m mod 10 < 10" "n mod 10 < 10"
    using assms by auto
  from three_digit_lex[OF assms(1)] have "m div 100 < n div 100 \<or>
     (m div 100 = n div 100 \<and> (m div 10 mod 10 < n div 10 mod 10 \<or>
        (m div 10 mod 10 = n div 10 mod 10 \<and> m mod 10 < n mod 10)))" .
  then show ?thesis
    by (auto simp: fmt3[OF m] fmt3[OF assms(2)] digit_char_less b)
qed

lemma fmt2_less:
  assumes "m < n" "n < 100"
  shows "format_0d 2 m @ x < format_0d 2 n @ y"
proof -
  from assms have m: "m < 100" by simp
  have b: "m div 10 < 10" "n div 10 < 10" "m mod 10 < 10" "n mod 10 < 10"
    using assms by auto
  from div_mod_lex[OF assms(1), of 10]
  have "m div 10 < n div 10 \<or> (m div 10 = n div 10 \<and> m mod 10 < n mod 10)" by simp
  then show ?thesis
    by (auto simp: fmt2[OF m] fmt2[OF assms(2)] digit_char_less b)
qed

lemma list_index_nth:
  "distinct xs \<Longrightarrow> i < length xs \<Longrightarrow> list_index (xs ! i) xs = i"
proof (induction xs arbitrary: i)
  case Nil then show ?case by simp
next
  case (Cons x xs)
  show ?case
  proof (cases i)
    case 0 then show ?thesis by simp
  next
    case (Suc j)
    with Cons.prems have "j < length xs" "xs ! j \<noteq> x" by auto
    with Cons Suc show ?thesis by auto
  qed
qed

lemma snapshot_filenames_nth:
  "distinct slides_data \<Longrightarrow> i < length slides_data \<Longrightarrow>
   snapshot_filenames slides_data ! i =
     format_0d 3 (i + 1) @ ''_snapshot_'' @ safe_title (fst (slides_data ! i)) @ ''.png''"
  by (simp add: snapshot_filenames_def snapshot_filename_def list_index_nth)

lemma image_filenames_nth:
  "distinct slides_data \<Longrightarrow> i < length slides_data \<Longrightarrow>
   image_filenames slides_data ! i = format_0d 2 (i + 1) @ ''_slide.png''"
  by (simp add: image_filenames_def image_filename_def list_index_nth)

lemma snapshot_filenames_sorted:
  assumes "distinct slides_data" "length slides_data < 1000"
  shows "sorted_wrt (<) (snapshot_filenames slides_data)"
proof -
  have "snapshot_filenames slides_data ! i < snapshot_filenames slides_data ! j"
    if "i < j" "j < length slides_data" for i j
  proof -
    from that assms have "i + 1 < j + 1" "j + 1 < 1000" "i < length slides_data" by auto
    with fmt3_less[of "i + 1" "j + 1"] that assms show ?thesis
      by (simp only: snapshot_filenames_nth)
  qed
  then show ?thesis by (simp add: sorted_wrt_iff_nth_less snapshot_filenames_def)
qed

lemma image_filenames_sorted:
  assumes "distinct slides_data" "length slides_data < 100"
  shows "sorted_wrt (<) (image_filenames slides_data)"
proof -
  have "image_filenames slides_data ! i < image_filenames slides_data ! j"
    if "i < j" "j < length slides_data" for i j
  proof -
    from that assms have "i + 1 < j + 1" "j + 1 < 100" "i < length slides_data" by auto
    with fmt2_less[of "i + 1" "j + 1"] that assms show ?thesis
      by (simp only: image_filenames_nth)
  qed
  then show ?thesis by (simp add: sorted_wrt_iff_nth_less image_filenames_def)
qed

lemma strict_sorted_sort: "sorted_wrt (<) (xs :: string list) \<Longrightarrow> sort xs = xs"
  by (simp add: sorted_sort_id strict_sorted_imp_sorted)

text \<open>
  Claim C9, as the code has it: the snapshot of the slide at position \<open>i\<close> (counted from
  0) of a list of pairwise different slides is named by \<open>i + 1\<close> padded with zeros to
  three digits, followed by \<open>_snapshot_\<close>, the sanitized title and \<open>.png\<close>; its image is
  named by \<open>i + 1\<close> padded to two digits followed by \<open>_slide.png\<close>. For fewer than 1000
  slides the snapshot names, and for fewer than 100 slides the image names, increase
  strictly in the lexicographic order along the emission order, so sorting them gives
  the emission order of the content slides back.
\<close>

theorem filenames_sort_in_emission_order:
  "(distinct slides_data \<and> length slides_data < 1000 \<longrightarrow>
      sorted_wrt (<) (snapshot_filenames slides_data) \<and>
      sort (snapshot_filenames slides_data) = snapshot_filenames slides_data) \<and>
   (distinct slides_data \<and> i < length slides_data \<longrightarrow>
      snapshot_filenames slides_data ! i =
        format_0d 3 (i + 1) @ ''_snapshot_'' @ safe_title (fst (slides_data ! i)) @ ''.png'') \<and>
   (distinct image_slides \<and> length image_slides < 100 \<longrightarrow>
      sorted_wrt (<) (image_filenames image_slides) \<and>
      sort (image_filenames image_slides) = image_filenames image_slides) \<and>
   (distinct image_slides \<and> i < length image_slides \<longrightarrow>
      image_filenames image_slides ! i = format_0d 2 (i + 1) @ ''_slide.png'')"
  using snapshot_filenames_sorted[of slides_data] image_filenames_sorted[of image_slides]
    snapshot_filenames_nth[of slides_data i] image_filenames_nth[of image_slides i]
    strict_sorted_sort
  by blast

theorem filenames_sort_in_emission_order_witness:
  "sort (snapshot_filenames [(''Intro'', [''Point A'']), (''1.1: Basics'', [''Intro''])]) =
     [''001_snapshot_Intro.png'', ''002_snapshot_1_1__Basics.png''] \<and>
   sort (image_filenames [''a'', ''b'', ''c'']) =
     [''01_slide.png'', ''02_slide.png'', ''03_slide.png'']"
proof -
  have s: "snapshot_filenames [(''Intro'', [''Point A'']), (''1.1: Basics'', [''Intro''])] =
     [''001_snapshot_Intro.png'', ''002_snapshot_1_1__Basics.png'']" by code_simp
  have g: "image_filenames [''a'', ''b'', ''c''] =
     [''01_slide.png'', ''02_slide.png'', ''03_slide.png'']" by code_simp
  have d: "distinct [(''Intro'', [''Point A'']), (''1.1: Basics'', [''Intro''])]"
    "distinct [''a'', ''b'', ''c'']" by simp_all
  note t = filenames_sort_in_emission_order
    [where slides_data = "[(''Intro'', [''Point A'']), (''1.1: Basics'', [''Intro''])]"
       and image_slides = "[''a'', ''b'', ''c'']"]
  from t d have "sort (snapshot_filenames [(''Intro'', [''Point A'']), (''1.1: Basics'', [''Intro''])]) =
      snapshot_filenames [(''Intro'', [''Point A'']), (''1.1: Basics'', [''Intro''])]"
    and "sort (image_filenames [''a'', ''b'', ''c'']) = image_filenames [''a'', ''b'', ''c'']"
    by simp_all
  then show ?thesis by (simp only: s g)
qed

text \<open>
  Claim C9 as stated fails: the title snapshot \<open>00_snapshot_title_slide.png\<close> sorts
  after the snapshot of the first slide, and beyond the width of the padding the order
  breaks (image 100 sorts before image 11, snapshot 1000 before snapshot 101).
\<close>

theorem sorted_filenames_break_presentation_order:
  "sort (title_snapshot_filename # snapshot_filenames [(''Intro'', [''Point A''])]) =
     [''001_snapshot_Intro.png'', ''00_snapshot_title_slide.png''] \<and>
   image_filename 100 = ''100_slide.png'' \<and> image_filename 11 = ''11_slide.png'' \<and>
   sort [image_filename 11, image_filename 100] = [''100_slide.png'', ''11_slide.png''] \<and>
   sort [snapshot_filename 101 ''A'', snapshot_filename 1000 ''B''] =
     [''1000_snapshot_B.png'', ''101_snapshot_A.png'']"
proof -
  have a: "snapshot_filenames [(''Intro'', [''Point A''])] = [''001_snapshot_Intro.png'']"
    by code_simp
  have b: "image_filename 100 = ''100_slide.png''" "image_filename 11 = ''11_slide.png''"
    by code_simp+
  have c: "snapshot_filename 101 ''A'' = ''101_snapshot_A.png''"
    "snapshot_filename 1000 ''B'' = ''1000_snapshot_B.png''"
    by code_simp+
  have 1: "sort [''00_snapshot_title_slide.png'', ''001_snapshot_Intro.png''] =
     [''001_snapshot_Intro.png'', ''00_snapshot_title_slide.png'']" by simp
  have 2: "sort [''11_slide.png'', ''100_slide.png''] = [''100_slide.png'', ''11_slide.png'']"
    by simp
  have 3: "sort [''101_snapshot_A.png'', ''1000_snapshot_B.png''] =
     [''1000_snapshot_B.png'', ''101_snapshot_A.png'']" by simp
  show ?thesis
    by (simp only: a b c title_snapshot_filename_def 1 2 3 simp_thms)
qed


end
